theory Spec2Isabelle
  imports Main
begin

section \<open>Python values shared by both scripts\<close>

text \<open>
  Exceptions are values. \<open>ValueError\<close> is the class the render loop catches;
  \<open>FileExistsError\<close> is the one \<open>os.makedirs\<close> catches, \<open>OSError\<close> stands for
  the other operating-system failures (missing file, not a file, not a directory); every
  other class is \<open>OtherException\<close>. The string is the
  message, \<open>str(e)\<close>.
\<close>

datatype exn = ValueError string | FileExistsError string | OSError string | OtherException string

fun str_exn :: "exn \<Rightarrow> string" where
  "str_exn (ValueError m) = m"
| "str_exn (FileExistsError m) = m"
| "str_exn (OSError m) = m"
| "str_exn (OtherException m) = m"

text \<open>\<open>str(n)\<close> for a non-negative integer: its decimal digits.\<close>

definition digit_char :: "nat \<Rightarrow> char" where
  "digit_char d = ''0123456789'' ! (d mod 10)"

fun str_nat :: "nat \<Rightarrow> string" where
  "str_nat n = (if n < 10 then [digit_char n] else str_nat (n div 10) @ [digit_char (n mod 10)])"

declare str_nat.simps [simp del]

definition str_int :: "int \<Rightarrow> string" where
  "str_int i = (if i < 0 then CHR ''-'' # str_nat (nat (- i)) else str_nat (nat i))"

text \<open>The format specification \<open>{i:02}\<close>: sign first, then zeros up to a total width of 2.\<close>

definition fmt02 :: "int \<Rightarrow> string" where
  "fmt02 i =
     (if i < 0 then CHR ''-'' # replicate (1 - length (str_nat (nat (- i)))) CHR ''0'' @ str_nat (nat (- i))
      else replicate (2 - length (str_nat (nat i))) CHR ''0'' @ str_nat (nat i))"

text \<open>\<open>str\<close> of a list of frame numbers, as an f-string prints it: \<open>[1, 2]\<close>.\<close>

fun str_items :: "nat list \<Rightarrow> string" where
  "str_items [] = []"
| "str_items [x] = str_nat x"
| "str_items (x # y # ys) = str_nat x @ '', '' @ str_items (y # ys)"

definition str_list :: "nat list \<Rightarrow> string" where
  "str_list xs = ''['' @ str_items xs @ '']''"

text \<open>\<open>range(a, b)\<close> over Python integers.\<close>

definition py_range :: "int \<Rightarrow> int \<Rightarrow> int list" where
  "py_range a b = [a..b - 1]"

section \<open>The logging sink\<close>

datatype level = INFO | WARNING

type_synonym log_record = "level \<times> string"

section \<open>draw_AU(song).py: rendering the frames\<close>

text \<open>
  The collaborators of the renderer are outside the repository and are parameters.
  \<open>plot_face env aus title\<close> is the body of the \<open>try\<close> block (row extraction,
  \<open>plot_face\<close>, \<open>get_figure\<close>): a figure, or the exception it raises.
  \<open>rasterize env fig dpi\<close> is \<open>savefig\<close> followed by \<open>imread\<close>. The three writer
  fields say which exception, if any, opening, appending and closing raise.
\<close>

record ('au, 'fig, 'img) env =
  plot_face :: "'au \<Rightarrow> string \<Rightarrow> exn + 'fig"
  rasterize :: "'fig \<Rightarrow> int \<Rightarrow> exn + 'img"
  open_error :: "string \<Rightarrow> exn option"
  append_error :: "'img list \<Rightarrow> 'img \<Rightarrow> exn option"
  close_error :: "string \<Rightarrow> 'img list \<Rightarrow> exn option"

text \<open>
  The loop \<open>for frame in range(total_frames)\<close> of \<open>generate_au_plot_figures\<close>. The
  state is \<open>(figs, error_frames, log)\<close>. A \<open>ValueError\<close> is caught: a warning is
  logged and the frame number appended to \<open>error_frames\<close>. Any other exception leaves
  the loop.
\<close>

fun plot_loop ::
  "('au, 'fig, 'img) env \<Rightarrow> 'au list \<Rightarrow> nat list \<Rightarrow> 'fig list \<times> nat list \<times> log_record list
   \<Rightarrow> exn + ('fig list \<times> nat list \<times> log_record list)" where
  "plot_loop env rows [] st = Inr st"
| "plot_loop env rows (frame # rest) (figs, error_frames, lg) =
     (case plot_face env (rows ! frame) (''Frame '' @ str_nat frame) of
        Inr fig \<Rightarrow> plot_loop env rows rest (figs @ [fig], error_frames, lg)
      | Inl (ValueError e) \<Rightarrow>
          plot_loop env rows rest
            (figs, error_frames @ [frame],
             lg @ [(WARNING, ''ValueError encountered at frame '' @ str_nat frame @ '': '' @ e)])
      | Inl e \<Rightarrow> Inl e)"

definition summary_warning :: "nat list \<Rightarrow> log_record" where
  "summary_warning error_frames =
     (WARNING, ''There are '' @ str_nat (length error_frames)
        @ '' frames that raised ValueError: '' @ str_list error_frames)"

definition generate_au_plot_figures ::
  "('au, 'fig, 'img) env \<Rightarrow> 'au list \<Rightarrow> log_record list
   \<Rightarrow> exn + (('fig list \<times> nat list) \<times> log_record list)" where
  "generate_au_plot_figures env input_prediction lg =
     (let total_frames = length input_prediction in
      case plot_loop env input_prediction [0..<total_frames] ([], [], lg) of
        Inl e \<Rightarrow> Inl e
      | Inr (figs, error_frames, lg') \<Rightarrow>
          Inr ((figs, error_frames), lg' @ [summary_warning error_frames]))"

text \<open>
  What one frame does: \<open>fig_at\<close> is the figure when the body of the \<open>try\<close> block
  succeeds, \<open>value_error_at\<close> holds when it raises the exception the loop catches,
  \<open>escapes_at\<close> when it raises any other.
\<close>

definition frame_result :: "('au, 'fig, 'img) env \<Rightarrow> 'au list \<Rightarrow> nat \<Rightarrow> exn + 'fig" where
  "frame_result env rows frame = plot_face env (rows ! frame) (''Frame '' @ str_nat frame)"

definition fig_at :: "('au, 'fig, 'img) env \<Rightarrow> 'au list \<Rightarrow> nat \<Rightarrow> 'fig option" where
  "fig_at env rows frame = (case frame_result env rows frame of Inr fig \<Rightarrow> Some fig | Inl _ \<Rightarrow> None)"

definition value_error_at :: "('au, 'fig, 'img) env \<Rightarrow> 'au list \<Rightarrow> nat \<Rightarrow> bool" where
  "value_error_at env rows frame =
     (case frame_result env rows frame of Inl (ValueError _) \<Rightarrow> True | _ \<Rightarrow> False)"

definition escapes_at :: "('au, 'fig, 'img) env \<Rightarrow> 'au list \<Rightarrow> nat \<Rightarrow> bool" where
  "escapes_at env rows frame =
     (case frame_result env rows frame of Inr _ \<Rightarrow> False | Inl (ValueError _) \<Rightarrow> False | Inl _ \<Rightarrow> True)"

definition frame_warning :: "('au, 'fig, 'img) env \<Rightarrow> 'au list \<Rightarrow> nat \<Rightarrow> log_record" where
  "frame_warning env rows frame =
     (WARNING, ''ValueError encountered at frame '' @ str_nat frame @ '': ''
        @ (case frame_result env rows frame of Inl e \<Rightarrow> str_exn e | Inr _ \<Rightarrow> []))"

section \<open>The file system\<close>

text \<open>
  The file system is the list of the paths that exist, each a directory or a file with
  its content, in the order the operating system enumerates them. Paths are strings and
  follow \<open>posixpath\<close>: the separator is \<open>/\<close>.
\<close>

datatype 'c node = Dir | File 'c

type_synonym 'c fsys = "(string \<times> 'c node) list"

definition os_path_exists :: "'c fsys \<Rightarrow> string \<Rightarrow> bool" where
  "os_path_exists fs p = (map_of fs p \<noteq> None)"

definition os_path_join :: "string \<Rightarrow> string \<Rightarrow> string" where
  "os_path_join a b =
     (if b \<noteq> [] \<and> hd b = CHR ''/'' then b
      else if a = [] \<or> last a = CHR ''/'' then a @ b
      else a @ CHR ''/'' # b)"

definition rstrip_sep :: "string \<Rightarrow> string" where
  "rstrip_sep p = rev (dropWhile (\<lambda>c. c = CHR ''/'') (rev p))"

definition os_path_basename :: "string \<Rightarrow> string" where
  "os_path_basename p = rev (takeWhile (\<lambda>c. c \<noteq> CHR ''/'') (rev p))"

definition os_path_split :: "string \<Rightarrow> string \<times> string" where
  "os_path_split p =
     (let tail = os_path_basename p;
          head = take (length p - length tail) p
      in (if head \<noteq> [] \<and> (\<exists>c\<in>set head. c \<noteq> CHR ''/'') then rstrip_sep head else head, tail))"

text \<open>
  \<open>os.path.splitext\<close>: the extension starts at the last dot of the last component,
  unless only dots come before it in that component.
\<close>

definition os_path_splitext :: "string \<Rightarrow> string \<times> string" where
  "os_path_splitext p =
     (let name_start = length p - length (os_path_basename p);
          dot_index = length p - length (takeWhile (\<lambda>c. c \<noteq> CHR ''.'') (rev p)) - 1
      in if CHR ''.'' \<in> set p \<and> name_start \<le> dot_index
            \<and> (\<exists>c\<in>set (take (dot_index - name_start) (drop name_start p)). c \<noteq> CHR ''.'')
         then (take dot_index p, drop dot_index p) else (p, []))"

text \<open>
  \<open>os.listdir\<close>: the names of the entries directly inside a directory, and an
  \<open>OSError\<close> when the path is missing or is not a directory.
\<close>

definition child_name :: "string \<Rightarrow> string \<Rightarrow> string option" where
  "child_name d p =
     (let pre = os_path_join d [];
          n = drop (length pre) p
      in if take (length pre) p = pre \<and> n \<noteq> [] \<and> CHR ''/'' \<notin> set n then Some n else None)"

definition os_listdir :: "'c fsys \<Rightarrow> string \<Rightarrow> exn + string list" where
  "os_listdir fs d =
     (case map_of fs d of
        Some Dir \<Rightarrow> Inr (List.map_filter (\<lambda>(p, _). child_name d p) fs)
      | Some (File _) \<Rightarrow> Inl (OSError ''Not a directory'')
      | None \<Rightarrow> Inl (OSError ''No such file or directory''))"

text \<open>\<open>os.remove\<close> deletes a file; a missing path or a directory raises.\<close>

definition os_remove :: "string \<Rightarrow> 'c fsys \<Rightarrow> exn + 'c fsys" where
  "os_remove p fs =
     (case map_of fs p of
        Some (File _) \<Rightarrow> Inr (filter (\<lambda>(q, _). q \<noteq> p) fs)
      | Some Dir \<Rightarrow> Inl (OSError ''Is a directory'')
      | None \<Rightarrow> Inl (OSError ''No such file or directory''))"

text \<open>\<open>os.mkdir\<close> and \<open>os.makedirs\<close> (with \<open>exist_ok=False\<close>), which first makes the
  missing parents.\<close>

definition os_mkdir :: "string \<Rightarrow> 'c fsys \<Rightarrow> exn + 'c fsys" where
  "os_mkdir name fs =
     (if os_path_exists fs name then Inl (FileExistsError ''File exists'')
      else Inr (fs @ [(name, Dir)]))"

definition makedirs_split :: "string \<Rightarrow> string \<times> string" where
  "makedirs_split name =
     (let (head, tail) = os_path_split name
      in if tail = [] then os_path_split head else (head, tail))"

lemma length_rstrip_sep: "length (rstrip_sep p) \<le> length p"
  unfolding rstrip_sep_def using length_dropWhile_le [of "\<lambda>c. c = CHR ''/''" "rev p"] by simp

lemma os_path_split_shorter:
  "snd (os_path_split p) \<noteq> [] \<Longrightarrow> length (fst (os_path_split p)) < length p"
proof -
  assume t: "snd (os_path_split p) \<noteq> []"
  define tl where "tl = os_path_basename p"
  have tl: "tl \<noteq> []" using t by (simp add: os_path_split_def Let_def tl_def)
  have le: "length tl \<le> length p"
    unfolding tl_def os_path_basename_def using length_takeWhile_le [of _ "rev p"] by simp
  have "length (take (length p - length tl) p) < length p" using tl le by (cases tl) auto
  moreover have "length (rstrip_sep (take (length p - length tl) p))
      \<le> length (take (length p - length tl) p)" by (rule length_rstrip_sep)
  ultimately show ?thesis
    by (auto simp: os_path_split_def Let_def tl_def [symmetric] simp del: length_take)
qed

lemma os_path_split_le: "length (fst (os_path_split p)) \<le> length p"
proof -
  have "length (rstrip_sep (take (length p - length (os_path_basename p)) p))
      \<le> length (take (length p - length (os_path_basename p)) p)" by (rule length_rstrip_sep)
  then show ?thesis by (auto simp: os_path_split_def Let_def)
qed

lemma makedirs_split_shorter:
  "snd (makedirs_split name) \<noteq> [] \<Longrightarrow> length (fst (makedirs_split name)) < length name"
proof -
  assume t: "snd (makedirs_split name) \<noteq> []"
  obtain h tl where s: "os_path_split name = (h, tl)" by (cases "os_path_split name") auto
  show ?thesis
  proof (cases "tl = []")
    case True
    then have m: "makedirs_split name = os_path_split h" by (simp add: makedirs_split_def s)
    have "length h \<le> length name" using os_path_split_le [of name] s by simp
    moreover have "length (fst (os_path_split h)) < length h"
      using t m os_path_split_shorter [of h] by simp
    ultimately show ?thesis using m by simp
  next
    case False
    then have "makedirs_split name = (h, tl)" by (simp add: makedirs_split_def s)
    then show ?thesis using os_path_split_shorter [of name] s False by simp
  qed
qed

function os_makedirs :: "string \<Rightarrow> 'c fsys \<Rightarrow> exn + 'c fsys" where
  "os_makedirs name fs =
     (if fst (makedirs_split name) \<noteq> [] \<and> snd (makedirs_split name) \<noteq> []
         \<and> \<not> os_path_exists fs (fst (makedirs_split name))
      then (case (case os_makedirs (fst (makedirs_split name)) fs of
                    Inl (FileExistsError _) \<Rightarrow> Inr fs
                  | r \<Rightarrow> r) of
              Inl e \<Rightarrow> Inl e
            | Inr fs' \<Rightarrow> if snd (makedirs_split name) = ''.'' then Inr fs' else os_mkdir name fs')
      else os_mkdir name fs)"
  by pat_completeness auto
termination
  by (relation "measure (\<lambda>(name, fs). length name)") (auto simp: makedirs_split_shorter)

declare os_makedirs.simps [simp del]

section \<open>draw_AU(song).py: one task\<close>

text \<open>
  A file holds a feat table (one row of action units per frame), a video (its frames),
  or something else. \<open>read_feat\<close> returns the rows of a table and raises on anything
  else. The state of the script is the file system and the log.
\<close>

datatype ('au, 'img) content = Table "'au list" | Video "'img list" | Bytes string

record ('au, 'img) world =
  files :: "('au, 'img) content fsys"
  log :: "log_record list"

definition logging_info :: "string \<Rightarrow> ('au, 'img) world \<Rightarrow> ('au, 'img) world" where
  "logging_info msg w = w\<lparr>log := log w @ [(INFO, msg)]\<rparr>"

definition read_feat :: "('au, 'img) content fsys \<Rightarrow> string \<Rightarrow> exn + 'au list" where
  "read_feat tree path =
     (case map_of tree path of
        Some (File (Table rows)) \<Rightarrow> Inr rows
      | Some (File _) \<Rightarrow> Inl (OtherException ''not a feat table'')
      | Some Dir \<Rightarrow> Inl (OSError ''Is a directory'')
      | None \<Rightarrow> Inl (OSError ''No such file or directory''))"

text \<open>
  The video writer: the path it was opened on and the frames appended so far. The
  encoder behind it starts at the first appended image, so closing a writer that got at
  least one image leaves the video at the path, and closing one that got none leaves the
  file system as it is.
\<close>

record 'img writer =
  wpath :: string
  wframes :: "'img list"

fun fs_put :: "string \<Rightarrow> 'c node \<Rightarrow> 'c fsys \<Rightarrow> 'c fsys" where
  "fs_put p n [] = [(p, n)]"
| "fs_put p n ((q, m) # rest) = (if q = p then (p, n) # rest else (q, m) # fs_put p n rest)"

definition get_writer :: "('au, 'fig, 'img) env \<Rightarrow> string \<Rightarrow> exn + 'img writer" where
  "get_writer env path =
     (case open_error env path of
        Some e \<Rightarrow> Inl e
      | None \<Rightarrow> Inr \<lparr>wpath = path, wframes = []\<rparr>)"

definition append_data :: "('au, 'fig, 'img) env \<Rightarrow> 'img writer \<Rightarrow> 'img \<Rightarrow> exn + 'img writer" where
  "append_data env wr img =
     (case append_error env (wframes wr) img of
        Some e \<Rightarrow> Inl e
      | None \<Rightarrow> Inr (wr\<lparr>wframes := wframes wr @ [img]\<rparr>))"

definition writer_close ::
  "('au, 'fig, 'img) env \<Rightarrow> 'img writer \<Rightarrow> ('au, 'img) world \<Rightarrow> exn + ('au, 'img) world" where
  "writer_close env wr w =
     (case close_error env (wpath wr) (wframes wr) of
        Some e \<Rightarrow> Inl e
      | None \<Rightarrow>
          Inr (w\<lparr>files := (if wframes wr = [] then files w
                            else fs_put (wpath wr) (File (Video (wframes wr))) (files w))\<rparr>))"

text \<open>The loop \<open>for fig in figs\<close>: rasterize the figure, append the image.\<close>

fun write_loop ::
  "('au, 'fig, 'img) env \<Rightarrow> int \<Rightarrow> 'fig list \<Rightarrow> 'img writer \<Rightarrow> exn + 'img writer" where
  "write_loop env dpi [] wr = Inr wr"
| "write_loop env dpi (fig # figs) wr =
     (case rasterize env fig dpi of
        Inl e \<Rightarrow> Inl e
      | Inr img \<Rightarrow>
          (case append_data env wr img of
             Inl e \<Rightarrow> Inl e
           | Inr wr' \<Rightarrow> write_loop env dpi figs wr'))"

text \<open>The module-level configuration.\<close>

record config =
  csv_path :: string
  video_path :: string
  start_actor_num :: int
  end_actor_num :: int
  isSong :: bool
  num_processes :: int
  DPI :: int

definition configuration :: config where
  "configuration =
     \<lparr>csv_path = ''F:/smoothed/'', video_path = ''F:/video/ActionUnit/'',
      start_actor_num = 1, end_actor_num = 25, isSong = False, num_processes = 10, DPI = 100\<rparr>"

type_synonym task = "string \<times> string"

text \<open>The three f-strings the task logs.\<close>

definition skip_msg :: "string \<Rightarrow> string" where
  "skip_msg au_video_path = ''File '' @ au_video_path @ '' already processed, skipping.''"

definition loaded_msg :: "string \<Rightarrow> string" where
  "loaded_msg smoothed_csv_path =
     ''Successfully loaded file: '' @ smoothed_csv_path @ '', now generating overlay for each frame''"

definition saved_msg :: "string \<Rightarrow> string" where
  "saved_msg au_video_path = ''Video saved as '' @ au_video_path"

definition generate_au_video_from_csv ::
  "('au, 'fig, 'img) env \<Rightarrow> config \<Rightarrow> task \<Rightarrow> ('au, 'img) world \<Rightarrow> exn + ('au, 'img) world" where
  "generate_au_video_from_csv env cfg args w =
     (let (smoothed_csv_path, au_video_path) = args in
      if os_path_exists (files w) au_video_path
      then Inr (logging_info (skip_msg au_video_path) w)
      else
        (case read_feat (files w) smoothed_csv_path of
           Inl e \<Rightarrow> Inl e
         | Inr video_prediction \<Rightarrow>
             let w1 = logging_info (loaded_msg smoothed_csv_path) w
             in (case generate_au_plot_figures env video_prediction (log w1) of
                   Inl e \<Rightarrow> Inl e
                 | Inr ((figs, _), lg) \<Rightarrow>
                     (case get_writer env au_video_path of
                        Inl e \<Rightarrow> Inl e
                      | Inr wr \<Rightarrow>
                          let w2 = logging_info ''generating video from frames'' (w1\<lparr>log := lg\<rparr>)
                          in (case write_loop env (DPI cfg) figs wr of
                                Inl e \<Rightarrow> Inl e
                              | Inr wr' \<Rightarrow>
                                  (case writer_close env wr' w2 of
                                     Inl e \<Rightarrow> Inl e
                                   | Inr w3 \<Rightarrow>
                                       Inr (logging_info (saved_msg au_video_path) w3)))))))"

text \<open>
  Names for what the stages of one task produce: the image of a figure, the figures of the
  frames that plot, the image of a frame, the warnings of the render loop; and for the
  stages that raise: the render loop (an exception other than \<open>ValueError\<close> at some
  frame) and the writer stage (opening, rasterizing and appending, closing).
\<close>

definition image_of :: "('au, 'fig, 'img) env \<Rightarrow> int \<Rightarrow> 'fig \<Rightarrow> 'img option" where
  "image_of env dpi fig = (case rasterize env fig dpi of Inr img \<Rightarrow> Some img | Inl _ \<Rightarrow> None)"

definition render_log :: "('au, 'fig, 'img) env \<Rightarrow> 'au list \<Rightarrow> log_record list" where
  "render_log env rows =
     map (frame_warning env rows) (filter (value_error_at env rows) [0..<length rows])
     @ [summary_warning (filter (value_error_at env rows) [0..<length rows])]"

definition plotted_figs :: "('au, 'fig, 'img) env \<Rightarrow> 'au list \<Rightarrow> 'fig list" where
  "plotted_figs env rows = List.map_filter (fig_at env rows) [0..<length rows]"

definition frame_image :: "('au, 'fig, 'img) env \<Rightarrow> int \<Rightarrow> 'au list \<Rightarrow> nat \<Rightarrow> 'img option" where
  "frame_image env dpi rows frame =
     (case fig_at env rows frame of None \<Rightarrow> None | Some fig \<Rightarrow> image_of env dpi fig)"

definition render_raises :: "('au, 'fig, 'img) env \<Rightarrow> 'au list \<Rightarrow> bool" where
  "render_raises env rows = list_ex (escapes_at env rows) [0..<length rows]"

definition writer_stage_raises :: "('au, 'fig, 'img) env \<Rightarrow> int \<Rightarrow> string \<Rightarrow> 'fig list \<Rightarrow> bool" where
  "writer_stage_raises env dpi path figs =
     (case get_writer env path of
        Inl _ \<Rightarrow> True
      | Inr wr \<Rightarrow>
          (case write_loop env dpi figs wr of
             Inl _ \<Rightarrow> True
           | Inr wr' \<Rightarrow> close_error env (wpath wr') (wframes wr') \<noteq> None))"

section \<open>draw_AU(song).py: main\<close>

text \<open>
  One iteration of \<open>for i in range(start_actor_num, end_actor_num)\<close> after the
  \<open>continue\<close> test: make the output folder when it is missing, list the input folder,
  append one task per file.
\<close>

definition actor_folder :: "int \<Rightarrow> string" where
  "actor_folder i = ''Actor_'' @ fmt02 i"

definition make_task :: "string \<Rightarrow> string \<Rightarrow> string \<Rightarrow> task" where
  "make_task smoothed_csv_folder_path au_video_folder_path file_name =
     (let smoothed_csv_path = os_path_join smoothed_csv_folder_path file_name;
          video_basename = fst (os_path_splitext (os_path_basename smoothed_csv_path));
          au_video_path = os_path_join au_video_folder_path (video_basename @ ''.mp4'')
      in (smoothed_csv_path, au_video_path))"

definition actor_step ::
  "config \<Rightarrow> int \<Rightarrow> task list \<times> ('au, 'img) world \<Rightarrow> exn + (task list \<times> ('au, 'img) world)" where
  "actor_step cfg i st =
     (let (tasks, w) = st;
          folder_name = actor_folder i;
          smoothed_csv_folder_path = os_path_join (csv_path cfg) folder_name;
          au_video_folder_path = os_path_join (video_path cfg) folder_name
      in case (if \<not> os_path_exists (files w) au_video_folder_path
               then (case os_makedirs au_video_folder_path (files w) of
                       Inl e \<Rightarrow> Inl e
                     | Inr fs' \<Rightarrow>
                         Inr (logging_info (''Created folder '' @ au_video_folder_path) (w\<lparr>files := fs'\<rparr>)))
               else Inr w) of
           Inl e \<Rightarrow> Inl e
         | Inr w' \<Rightarrow>
             (case os_listdir (files w') smoothed_csv_folder_path of
                Inl e \<Rightarrow> Inl e
              | Inr names \<Rightarrow>
                  Inr (tasks @ map (make_task smoothed_csv_folder_path au_video_folder_path) names, w')))"

fun enumerate_loop ::
  "config \<Rightarrow> int list \<Rightarrow> task list \<times> ('au, 'img) world \<Rightarrow> exn + (task list \<times> ('au, 'img) world)" where
  "enumerate_loop cfg [] st = Inr st"
| "enumerate_loop cfg (i # rest) st =
     (if i = 18 \<and> isSong cfg then enumerate_loop cfg rest st
      else (case actor_step cfg i st of
              Inl e \<Rightarrow> Inl e
            | Inr st' \<Rightarrow> enumerate_loop cfg rest st'))"

definition enumerate_tasks ::
  "config \<Rightarrow> ('au, 'img) world \<Rightarrow> exn + (task list \<times> ('au, 'img) world)" where
  "enumerate_tasks cfg w =
     enumerate_loop cfg (py_range (start_actor_num cfg) (end_actor_num cfg)) ([], w)"

text \<open>The input and the output folder of an actor, as an iteration computes them.\<close>

definition in_folder :: "config \<Rightarrow> int \<Rightarrow> string" where
  "in_folder cfg i = os_path_join (csv_path cfg) (actor_folder i)"

definition out_folder :: "config \<Rightarrow> int \<Rightarrow> string" where
  "out_folder cfg i = os_path_join (video_path cfg) (actor_folder i)"



section \<open>remove_video_only_file.py\<close>

text \<open>
  \<open>fnmatch\<close> on one name: \<open>*\<close> matches any run of characters, \<open>?\<close> one character,
  every other character itself (the pattern of the script has no bracket).
\<close>

fun fnmatch :: "string \<Rightarrow> string \<Rightarrow> bool" where
  "fnmatch [] [] = True"
| "fnmatch [] (c # cs) = False"
| "fnmatch (p # ps) [] = (p = CHR ''*'' \<and> fnmatch ps [])"
| "fnmatch (p # ps) (c # cs) =
     (if p = CHR ''*'' then fnmatch ps (c # cs) \<or> fnmatch (p # ps) cs
      else if p = CHR ''?'' then fnmatch ps cs
      else p = c \<and> fnmatch ps cs)"

text \<open>
  \<open>glob.glob\<close> on a pattern whose directory part has no wildcard: list the directory
  (an unreadable one gives no match), keep the names that match the last component and
  do not start with a dot, and join each to the directory.
\<close>

definition glob_glob :: "'c fsys \<Rightarrow> string \<Rightarrow> string list" where
  "glob_glob fs pattern =
     (let (dirname, basename) = os_path_split pattern in
      case os_listdir fs dirname of
        Inl _ \<Rightarrow> []
      | Inr names \<Rightarrow>
          map (os_path_join dirname)
            (filter (\<lambda>n. (hd n \<noteq> CHR ''.'' \<or> hd basename = CHR ''.'') \<and> fnmatch basename n) names))"

definition RAVDESS_path :: string where
  "RAVDESS_path = ''F:/RAVDESS/''"

text \<open>The state of the script: the file system, the lines printed, \<open>delete_counter\<close>.\<close>

type_synonym 'c cleanup_state = "'c fsys \<times> string list \<times> int"

fun remove_loop :: "string list \<Rightarrow> 'c cleanup_state \<Rightarrow> exn + 'c cleanup_state" where
  "remove_loop [] st = Inr st"
| "remove_loop (file # rest) (fs, out, delete_counter) =
     (case os_remove file fs of
        Inl e \<Rightarrow> Inl e
      | Inr fs' \<Rightarrow> remove_loop rest (fs', out @ [''Deleted '' @ file], delete_counter + 1))"

definition file_pattern :: "int \<Rightarrow> string" where
  "file_pattern i =
     (let folder_name = actor_folder i;
          full_path = os_path_join RAVDESS_path folder_name
      in os_path_join full_path ''02-*.mp4'')"

fun actor_loop :: "int list \<Rightarrow> 'c cleanup_state \<Rightarrow> exn + 'c cleanup_state" where
  "actor_loop [] st = Inr st"
| "actor_loop (i # rest) (fs, out, delete_counter) =
     (let files_to_delete = glob_glob fs (file_pattern i)
      in case remove_loop files_to_delete (fs, out, delete_counter) of
           Inl e \<Rightarrow> Inl e
         | Inr st' \<Rightarrow> actor_loop rest st')"

definition remove_video_only_file :: "'c fsys \<Rightarrow> exn + 'c cleanup_state" where
  "remove_video_only_file fs =
     (case actor_loop (py_range 1 25) (fs, [], 0) of
        Inl e \<Rightarrow> Inl e
      | Inr (fs', out, delete_counter) \<Rightarrow>
          Inr (fs', out @ [str_int delete_counter @ '' files has been deleted''], delete_counter))"





section \<open>Concrete inputs\<close>

text \<open>
  A small renderer for running the definitions: a row is one number, a negative row
  makes \<open>plot_face\<close> raise a \<open>ValueError\<close>, a row above 100 a \<open>TypeError\<close>; a
  figure is its title and its image the same string; the writer never fails.
\<close>

definition demo_env :: "(int, string, string) env" where
  "demo_env =
     \<lparr>plot_face = (\<lambda>aus title.
        if aus < 0 then Inl (ValueError ''negative intensity'')
        else if 100 < aus then Inl (OtherException ''TypeError'')
        else Inr title),
      rasterize = (\<lambda>fig dpi. Inr fig),
      open_error = (\<lambda>path. None),
      append_error = (\<lambda>frames img. None),
      close_error = (\<lambda>path frames. None)\<rparr>"

text \<open>
  A small disk: the input folders of actors 1 and 2 with their tables, the output folder
  of actor 1 and one finished video in it.
\<close>

definition demo_world :: "(int, string) world" where
  "demo_world =
     \<lparr>files =
        [(''F:'', Dir),
         (''F:/smoothed'', Dir),
         (''F:/smoothed/Actor_01'', Dir),
         (''F:/smoothed/Actor_01/a.csv'', File (Table [3, -1, 7, -2])),
         (''F:/smoothed/Actor_01/b.csv'', File (Table [5, 200, 7])),
         (''F:/smoothed/Actor_01/c.csv'', File (Table [])),
         (''F:/smoothed/Actor_02'', Dir),
         (''F:/smoothed/Actor_02/e.csv'', File (Table [1])),
         (''F:/video'', Dir),
         (''F:/video/ActionUnit'', Dir),
         (''F:/video/ActionUnit/Actor_01'', Dir),
         (''F:/video/ActionUnit/Actor_01/d.mp4'', File (Video [''old frame'']))],
      log = []\<rparr>"




text \<open>
  Song mode on actors 17 and 18: the configuration, a disk with both input folders, and
  what the enumeration returns there.
\<close>

definition song_config :: config where
  "song_config = configuration\<lparr>start_actor_num := 17, end_actor_num := 19, isSong := True\<rparr>"

definition song_world :: "(int, string) world" where
  "song_world =
     \<lparr>files =
        [(''F:'', Dir),
         (''F:/smoothed'', Dir),
         (''F:/smoothed/Actor_17'', Dir),
         (''F:/smoothed/Actor_17/x.csv'', File (Table [1, 2])),
         (''F:/smoothed/Actor_18'', Dir),
         (''F:/smoothed/Actor_18/y.csv'', File (Table [4])),
         (''F:/video'', Dir),
         (''F:/video/ActionUnit'', Dir)],
      log = []\<rparr>"

definition song_tasks :: "task list" where
  "song_tasks = [(''F:/smoothed/Actor_17/x.csv'', ''F:/video/ActionUnit/Actor_17/x.mp4'')]"

definition song_world_enumerated :: "(int, string) world" where
  "song_world_enumerated =
     song_world\<lparr>files := files song_world @ [(''F:/video/ActionUnit/Actor_17'', Dir)],
                log := [(INFO, ''Created folder F:/video/ActionUnit/Actor_17'')]\<rparr>"


section \<open>Properties of the render loop\<close>

lemma caught_iff_no_fig:
  "\<not> escapes_at env rows k \<Longrightarrow> value_error_at env rows k = (fig_at env rows k = None)"
  by (simp add: fig_at_def value_error_at_def escapes_at_def split: sum.splits exn.splits)

lemma plot_loop_ok:
  "\<forall>k\<in>set ks. \<not> escapes_at env rows k \<Longrightarrow>
   plot_loop env rows ks (figs, errs, lg) =
     Inr (figs @ List.map_filter (fig_at env rows) ks,
          errs @ filter (value_error_at env rows) ks,
          lg @ map (frame_warning env rows) (filter (value_error_at env rows) ks))"
proof (induction ks arbitrary: figs errs lg)
  case Nil
  then show ?case by (simp add: List.map_filter_simps)
next
  case (Cons k ks)
  then show ?case
    by (auto simp: escapes_at_def fig_at_def value_error_at_def frame_warning_def
        frame_result_def List.map_filter_simps split: sum.splits exn.splits)
qed

lemma plot_loop_escape:
  "\<exists>k\<in>set ks. escapes_at env rows k \<Longrightarrow> \<exists>e. plot_loop env rows ks st = Inl e"
proof (induction ks arbitrary: st)
  case Nil
  then show ?case by simp
next
  case (Cons k ks)
  obtain figs errs lg where st: "st = (figs, errs, lg)" by (cases st) auto
  show ?case
  proof (cases "escapes_at env rows k")
    case True
    then show ?thesis unfolding st
      by (auto simp: escapes_at_def frame_result_def split: sum.splits exn.splits)
  next
    case False
    with Cons.prems have "\<exists>k\<in>set ks. escapes_at env rows k" by auto
    from Cons.IH[OF this] show ?thesis unfolding st
      by (auto split: sum.splits exn.splits)
  qed
qed

lemma generate_au_plot_figures_ok:
  assumes "\<forall>k<length rows. \<not> escapes_at env rows k"
  shows "generate_au_plot_figures env rows lg =
     Inr ((List.map_filter (fig_at env rows) [0..<length rows],
           filter (value_error_at env rows) [0..<length rows]),
          lg @ map (frame_warning env rows) (filter (value_error_at env rows) [0..<length rows])
             @ [summary_warning (filter (value_error_at env rows) [0..<length rows])])"
proof -
  have "\<forall>k\<in>set [0..<length rows]. \<not> escapes_at env rows k" using assms by simp
  from plot_loop_ok [OF this, of "[]" "[]" lg] show ?thesis
    by (simp add: generate_au_plot_figures_def)
qed

lemma generate_au_plot_figures_escape:
  assumes "\<exists>k<length rows. escapes_at env rows k"
  shows "\<exists>e. generate_au_plot_figures env rows lg = Inl e"
proof -
  have "\<exists>k\<in>set [0..<length rows]. escapes_at env rows k" using assms by auto
  from plot_loop_escape [OF this, of "([], [], lg)"] show ?thesis
    by (auto simp: generate_au_plot_figures_def)
qed

lemma generate_au_plot_figures_returns:
  "(\<exists>r. generate_au_plot_figures env rows lg = Inr r) = (\<forall>k<length rows. \<not> escapes_at env rows k)"
proof (cases "\<forall>k<length rows. \<not> escapes_at env rows k")
  case True
  then show ?thesis using generate_au_plot_figures_ok [of rows env lg] by simp
next
  case False
  then have "\<exists>k<length rows. escapes_at env rows k" by simp
  from generate_au_plot_figures_escape [OF this, of lg] False show ?thesis by auto
qed

lemma length_map_filter: "length (List.map_filter f xs) = length (filter (\<lambda>x. f x \<noteq> None) xs)"
  by (simp add: List.map_filter_def)

lemma partition_lengths:
  assumes "\<forall>k\<in>set ks. \<not> escapes_at env rows k"
  shows "length (List.map_filter (fig_at env rows) ks) + length (filter (value_error_at env rows) ks)
         = length ks"
proof -
  have "filter (value_error_at env rows) ks = filter (\<lambda>k. \<not> fig_at env rows k \<noteq> None) ks"
    using assms by (intro filter_cong) (auto simp: caught_iff_no_fig)
  then show ?thesis
    using sum_length_filter_compl [of "\<lambda>k. fig_at env rows k \<noteq> None" ks]
    by (simp add: length_map_filter)
qed

lemma filter_upt_two:
  assumes "i < j" "j < n" "P i" "P j" "\<forall>k<n. k \<noteq> i \<and> k \<noteq> j \<longrightarrow> \<not> P k"
  shows "filter P [0..<n] = [i, j]"
proof -
  have split: "[0..<n] = [0..<i] @ i # [Suc i..<j] @ j # [Suc j..<n]"
  proof -
    have "[0..<n] = [0..<i] @ [i..<n]" using assms(1,2) upt_add_eq_append [of 0 i "n - i"] by simp
    also have "[i..<n] = i # [Suc i..<n]" using assms(1,2) by (simp add: upt_conv_Cons)
    also have "[Suc i..<n] = [Suc i..<j] @ [j..<n]"
      using assms(1,2) upt_add_eq_append [of "Suc i" j "n - j"] by simp
    also have "[j..<n] = j # [Suc j..<n]" using assms(2) by (simp add: upt_conv_Cons)
    finally show ?thesis .
  qed
  have a: "filter P [0..<i] = []" using assms by (auto simp: filter_empty_conv)
  have b: "filter P [Suc i..<j] = []" using assms by (auto simp: filter_empty_conv)
  have c: "filter P [Suc j..<n] = []" using assms by (auto simp: filter_empty_conv)
  show ?thesis by (subst split) (simp add: a b c assms(3,4))
qed

text \<open>
  C9. Whenever \<open>generate_au_plot_figures\<close> returns, every frame number below
  \<open>total_frames\<close> is in exactly one of its two results: the figures are those of the
  frames that plotted, in frame order, \<open>error_frames\<close> are the frames that raised a
  value error, the two lengths add up to \<open>total_frames\<close>, and \<open>error_frames\<close> is
  strictly increasing, without duplicates, and within range.
\<close>

theorem plot_figures_partition:
  assumes "generate_au_plot_figures env rows lg = Inr ((figs, error_frames), lg')"
  shows "figs = List.map_filter (fig_at env rows) [0..<length rows]
       \<and> error_frames = filter (value_error_at env rows) [0..<length rows]
       \<and> length figs + length error_frames = length rows
       \<and> sorted_wrt (<) error_frames \<and> distinct error_frames
       \<and> set error_frames \<subseteq> {0..<length rows}"
proof -
  have ne: "\<forall>k<length rows. \<not> escapes_at env rows k"
    using assms generate_au_plot_figures_returns [of env rows lg] by auto
  have r: "figs = List.map_filter (fig_at env rows) [0..<length rows]"
       "error_frames = filter (value_error_at env rows) [0..<length rows]"
    using assms generate_au_plot_figures_ok [OF ne, of lg] by simp_all
  have "\<forall>k\<in>set [0..<length rows]. \<not> escapes_at env rows k" using ne by simp
  from partition_lengths [OF this] have len: "length figs + length error_frames = length rows"
    by (simp add: r)
  have "sorted_wrt (<) error_frames" unfolding r by (rule sorted_wrt_filter) simp
  moreover have "distinct error_frames" unfolding r by simp
  moreover have "set error_frames \<subseteq> {0..<length rows}" unfolding r by auto
  ultimately show ?thesis using r len by simp
qed

theorem plot_figures_partition_witness:
  "generate_au_plot_figures demo_env [3, -1, 7, -2] [] =
     Inr (([''Frame 0'', ''Frame 2''], [1, 3]),
          [(WARNING, ''ValueError encountered at frame 1: negative intensity''),
           (WARNING, ''ValueError encountered at frame 3: negative intensity''),
           (WARNING, ''There are 2 frames that raised ValueError: [1, 3]'')])
   \<and> [''Frame 0'', ''Frame 2'']
       = List.map_filter (fig_at demo_env [3, -1, 7, -2]) [0..<length [3, -1, 7, -2 :: int]]
   \<and> [1, 3] = filter (value_error_at demo_env [3, -1, 7, -2]) [0..<length [3, -1, 7, -2 :: int]]
   \<and> length [''Frame 0'', ''Frame 2''] + length [1, 3 :: nat] = length [3, -1, 7, -2 :: int]
   \<and> sorted_wrt (<) [1, 3 :: nat] \<and> distinct [1, 3 :: nat]"
proof -
  have h: "generate_au_plot_figures demo_env [3, -1, 7, -2] [] =
     Inr (([''Frame 0'', ''Frame 2''], [1, 3]),
          [(WARNING, ''ValueError encountered at frame 1: negative intensity''),
           (WARNING, ''ValueError encountered at frame 3: negative intensity''),
           (WARNING, ''There are 2 frames that raised ValueError: [1, 3]'')])"
    by code_simp
  from plot_figures_partition [OF h] h show ?thesis by blast
qed

text \<open>
  C2. When plotting raises a value error at the two frames \<open>i < j\<close> and succeeds at
  every other frame of an \<open>N\<close>-frame table, \<open>generate_au_plot_figures\<close> returns: the
  error list is \<open>[i, j]\<close>, there are \<open>N - 2\<close> figures (those of the other frames, in
  order), and the log gains one warning per bad frame and the summary naming both.
\<close>

theorem two_value_errors:
  assumes "i < j" and "j < length rows"
    and "value_error_at env rows i" and "value_error_at env rows j"
    and "\<forall>k<length rows. k \<noteq> i \<and> k \<noteq> j \<longrightarrow> fig_at env rows k \<noteq> None"
  shows "\<exists>figs lg'. generate_au_plot_figures env rows lg = Inr ((figs, [i, j]), lg')
           \<and> figs = List.map_filter (fig_at env rows) [0..<length rows]
           \<and> length figs = length rows - 2
           \<and> lg' = lg @ [frame_warning env rows i, frame_warning env rows j, summary_warning [i, j]]"
proof -
  have ne: "\<forall>k<length rows. \<not> escapes_at env rows k"
  proof (intro allI impI)
    fix k assume "k < length rows"
    then show "\<not> escapes_at env rows k"
      using assms(3,4,5) by (cases "k = i \<or> k = j")
        (auto simp: fig_at_def value_error_at_def escapes_at_def split: sum.splits exn.splits)
  qed
  have other: "\<forall>k<length rows. k \<noteq> i \<and> k \<noteq> j \<longrightarrow> \<not> value_error_at env rows k"
    using assms(5) ne by (auto simp: caught_iff_no_fig)
  have errs: "filter (value_error_at env rows) [0..<length rows] = [i, j]"
    using filter_upt_two [OF assms(1,2,3,4) other] .
  have "\<forall>k\<in>set [0..<length rows]. \<not> escapes_at env rows k" using ne by simp
  from partition_lengths [OF this]
  have "length (List.map_filter (fig_at env rows) [0..<length rows]) = length rows - 2"
    by (simp add: errs)
  then show ?thesis using generate_au_plot_figures_ok [OF ne, of lg] by (simp add: errs)
qed

theorem two_value_errors_witness:
  "value_error_at demo_env [3, -1, 7, -2] 1 \<and> value_error_at demo_env [3, -1, 7, -2] 3
   \<and> fig_at demo_env [3, -1, 7, -2] 0 = Some ''Frame 0''
   \<and> fig_at demo_env [3, -1, 7, -2] 2 = Some ''Frame 2''
   \<and> (\<exists>figs lg'. generate_au_plot_figures demo_env [3, -1, 7, -2] [] = Inr ((figs, [1, 3]), lg')
        \<and> length figs = 2)"
proof -
  have v1: "value_error_at demo_env [3, -1, 7, -2] 1" by code_simp
  have v3: "value_error_at demo_env [3, -1, 7, -2] 3" by code_simp
  have f0: "fig_at demo_env [3, -1, 7, -2] 0 = Some ''Frame 0''" by code_simp
  have f2: "fig_at demo_env [3, -1, 7, -2] 2 = Some ''Frame 2''" by code_simp
  have rest: "\<forall>k<length [3, -1, 7, -2 :: int]. k \<noteq> 1 \<and> k \<noteq> 3
      \<longrightarrow> fig_at demo_env [3, -1, 7, -2] k \<noteq> None"
  proof (intro allI impI)
    fix k :: nat assume "k < length [3, -1, 7, -2 :: int]" and "k \<noteq> 1 \<and> k \<noteq> 3"
    then have "k = 0 \<or> k = 2" by auto
    then show "fig_at demo_env [3, -1, 7, -2] k \<noteq> None" using f0 f2 by auto
  qed
  have "(1::nat) < 3" "(3::nat) < length [3, -1, 7, -2 :: int]" by simp_all
  from two_value_errors [OF this v1 v3 rest, of "[]"] v1 v3 f0 f2 show ?thesis by auto
qed

section \<open>Properties of one task\<close>

lemma write_loop_frames:
  "write_loop env dpi figs wr = Inr wr' \<Longrightarrow>
   wr' = wr\<lparr>wframes := wframes wr @ List.map_filter (image_of env dpi) figs\<rparr>
   \<and> (\<forall>fig\<in>set figs. image_of env dpi fig \<noteq> None)"
proof (induction figs arbitrary: wr)
  case Nil
  then show ?case by (simp add: List.map_filter_simps)
next
  case (Cons fig figs)
  from Cons.prems obtain img wr1 where
    r: "rasterize env fig dpi = Inr img" and a: "append_data env wr img = Inr wr1"
    and l: "write_loop env dpi figs wr1 = Inr wr'"
    by (auto split: sum.splits)
  have wr1: "wr1 = wr\<lparr>wframes := wframes wr @ [img]\<rparr>"
    using a by (auto simp: append_data_def split: option.splits)
  from Cons.IH [OF l] r show ?case
    by (simp add: wr1 image_of_def List.map_filter_simps)
qed

lemma map_of_fs_put: "map_of (fs_put p n t) = (map_of t)(p \<mapsto> n)"
  by (induction t) (auto simp: fun_eq_iff)

lemma map_filter_compose:
  "List.map_filter g (List.map_filter f xs) =
   List.map_filter (\<lambda>x. case f x of None \<Rightarrow> None | Some y \<Rightarrow> g y) xs"
  by (induction xs) (auto simp: List.map_filter_simps split: option.splits)

lemma video_skip:
  "os_path_exists (files w) out \<Longrightarrow>
   generate_au_video_from_csv env cfg (csv, out) w =
     Inr (logging_info (skip_msg out) w)"
  by (simp add: generate_au_video_from_csv_def)

lemma video_escape:
  assumes "\<not> os_path_exists (files w) out" and "read_feat (files w) csv = Inr rows"
    and "\<exists>k<length rows. escapes_at env rows k"
  shows "\<exists>e. generate_au_video_from_csv env cfg (csv, out) w = Inl e"
proof -
  obtain e where "generate_au_plot_figures env rows (log (logging_info (loaded_msg csv) w)) = Inl e"
    using generate_au_plot_figures_escape [OF assms(3)] by blast
  then show ?thesis using assms(1,2)
    by (simp add: generate_au_video_from_csv_def Let_def)
qed

lemma video_run:
  assumes "\<not> os_path_exists (files w) out" and "read_feat (files w) csv = Inr rows"
    and "\<forall>k<length rows. \<not> escapes_at env rows k"
  shows "generate_au_video_from_csv env cfg (csv, out) w =
     (case open_error env out of
        Some e \<Rightarrow> Inl e
      | None \<Rightarrow>
          (case write_loop env (DPI cfg) (List.map_filter (fig_at env rows) [0..<length rows])
                  \<lparr>wpath = out, wframes = []\<rparr> of
             Inl e \<Rightarrow> Inl e
           | Inr wr \<Rightarrow>
               (case close_error env (wpath wr) (wframes wr) of
                  Some e \<Rightarrow> Inl e
                | None \<Rightarrow>
                    Inr (w\<lparr>files := (if wframes wr = [] then files w
                                     else fs_put (wpath wr) (File (Video (wframes wr))) (files w)),
                           log := log w @ [(INFO, loaded_msg csv)] @ render_log env rows
                               @ [(INFO, ''generating video from frames''),
                                  (INFO, saved_msg out)]\<rparr>))))"
proof -
  have g: "generate_au_plot_figures env rows (log (logging_info (loaded_msg csv) w)) =
      Inr ((List.map_filter (fig_at env rows) [0..<length rows],
            filter (value_error_at env rows) [0..<length rows]),
           log w @ [(INFO, loaded_msg csv)] @ render_log env rows)"
    using generate_au_plot_figures_ok [OF assms(3)] by (simp add: logging_info_def render_log_def)
  show ?thesis using assms(1,2) g
    by (cases "open_error env out";
        cases "write_loop env (DPI cfg) (List.map_filter (fig_at env rows) [0..<length rows])
                  \<lparr>wpath = out, wframes = []\<rparr>")
       (auto simp: generate_au_video_from_csv_def Let_def
        get_writer_def writer_close_def logging_info_def split: option.splits)
qed

text \<open>
  C1. When the output video already exists at the start of
  \<open>generate_au_video_from_csv\<close>, the function returns at once, whatever the reader,
  the plotting routine and the writer would do: the table is not loaded, no frame is
  rendered, no writer is opened. The only effect is the info record of the skip in the
  log; the file system, and so the existing output file, is unchanged.
\<close>

theorem skip_existing_output:
  assumes "os_path_exists (files w) au_video_path"
  shows "generate_au_video_from_csv env cfg (smoothed_csv_path, au_video_path) w =
           Inr (w\<lparr>log := log w @ [(INFO, skip_msg au_video_path)]\<rparr>)
       \<and> (\<forall>w'. generate_au_video_from_csv env cfg (smoothed_csv_path, au_video_path) w = Inr w'
              \<longrightarrow> files w' = files w)"
  using assms by (simp add: generate_au_video_from_csv_def logging_info_def)

theorem skip_existing_output_witness:
  "os_path_exists (files demo_world) ''F:/video/ActionUnit/Actor_01/d.mp4''
   \<and> generate_au_video_from_csv demo_env configuration
        (''F:/smoothed/Actor_01/a.csv'', ''F:/video/ActionUnit/Actor_01/d.mp4'') demo_world
      = Inr (demo_world\<lparr>log := [(INFO, ''File F:/video/ActionUnit/Actor_01/d.mp4 already processed, skipping.'')]\<rparr>)"
proof -
  have h: "os_path_exists (files demo_world) ''F:/video/ActionUnit/Actor_01/d.mp4''"
    by (simp add: demo_world_def os_path_exists_def)
  from skip_existing_output [OF h, of demo_env configuration "''F:/smoothed/Actor_01/a.csv''"] h
  show ?thesis by (simp add: skip_msg_def demo_world_def)
qed




text \<open>
  C3. When a task completes, the frames appended to the video writer are the images of
  the frames of the table, in ascending frame order, restricted to the frames that
  rendered: the write loop runs on the figures the render loop returned and leaves the
  writer holding the image of every frame but those whose plotting raised a value
  error, in the order of the frames. The video at the output path afterwards holds these
  frames, when there is at least one; otherwise no file is there.
\<close>

theorem frames_written_in_order:
  assumes "\<not> os_path_exists (files w) out" and "read_feat (files w) csv = Inr rows"
    and "generate_au_video_from_csv env cfg (csv, out) w = Inr w'"
  shows "generate_au_plot_figures env rows (log w @ [(INFO, loaded_msg csv)])
           = Inr ((plotted_figs env rows, filter (value_error_at env rows) [0..<length rows]),
                  log w @ [(INFO, loaded_msg csv)] @ render_log env rows)
       \<and> write_loop env (DPI cfg) (plotted_figs env rows) \<lparr>wpath = out, wframes = []\<rparr>
           = Inr \<lparr>wpath = out,
                  wframes = List.map_filter (frame_image env (DPI cfg) rows) [0..<length rows]\<rparr>
       \<and> (\<forall>k<length rows. (frame_image env (DPI cfg) rows k = None) = value_error_at env rows k)
       \<and> map_of (files w') out =
           (if List.map_filter (frame_image env (DPI cfg) rows) [0..<length rows] = [] then None
            else Some (File (Video (List.map_filter (frame_image env (DPI cfg) rows)
                                      [0..<length rows]))))"
proof -
  let ?frames = "List.map_filter (frame_image env (DPI cfg) rows) [0..<length rows]"
  have ne: "\<forall>k<length rows. \<not> escapes_at env rows k"
  proof (rule ccontr)
    assume "\<not> ?thesis"
    then have "\<exists>k<length rows. escapes_at env rows k" by simp
    from video_escape [OF assms(1,2) this, of cfg] assms(3) show False by simp
  qed
  have g: "generate_au_plot_figures env rows (log w @ [(INFO, loaded_msg csv)])
           = Inr ((plotted_figs env rows, filter (value_error_at env rows) [0..<length rows]),
                  log w @ [(INFO, loaded_msg csv)] @ render_log env rows)"
    using generate_au_plot_figures_ok [OF ne] by (simp add: plotted_figs_def render_log_def)
  from assms(3) obtain wr where
    wl: "write_loop env (DPI cfg) (List.map_filter (fig_at env rows) [0..<length rows])
           \<lparr>wpath = out, wframes = []\<rparr> = Inr wr"
    and w': "w' = w\<lparr>files := (if wframes wr = [] then files w
                               else fs_put (wpath wr) (File (Video (wframes wr))) (files w)),
                   log := log w @ [(INFO, loaded_msg csv)] @ render_log env rows
                               @ [(INFO, ''generating video from frames''),
                                  (INFO, saved_msg out)]\<rparr>"
    unfolding video_run [OF assms(1,2) ne] by (auto split: option.splits sum.splits)
  from write_loop_frames [OF wl]
  have wr: "wr = \<lparr>wpath = out,
                  wframes = List.map_filter (image_of env (DPI cfg))
                              (List.map_filter (fig_at env rows) [0..<length rows])\<rparr>"
    and all: "\<forall>fig\<in>set (List.map_filter (fig_at env rows) [0..<length rows]).
                image_of env (DPI cfg) fig \<noteq> None"
    by simp_all
  have fr: "wframes wr = ?frames"
    by (simp add: wr map_filter_compose frame_image_def [abs_def])
  have wp: "wpath wr = out" by (simp add: wr)
  have l: "write_loop env (DPI cfg) (plotted_figs env rows) \<lparr>wpath = out, wframes = []\<rparr>
           = Inr \<lparr>wpath = out, wframes = ?frames\<rparr>"
    using wl fr wp unfolding plotted_figs_def by (cases wr) simp
  have none: "map_of (files w) out = None" using assms(1) by (simp add: os_path_exists_def)
  have a: "map_of (files w') out = (if ?frames = [] then None else Some (File (Video ?frames)))"
    by (simp add: w' map_of_fs_put fr wp none)
  have b: "\<forall>k<length rows. (frame_image env (DPI cfg) rows k = None) = value_error_at env rows k"
  proof (intro allI impI)
    fix k assume k: "k < length rows"
    show "(frame_image env (DPI cfg) rows k = None) = value_error_at env rows k"
    proof (cases "fig_at env rows k")
      case None
      then show ?thesis using ne k caught_iff_no_fig [of env rows k] by (simp add: frame_image_def)
    next
      case (Some fig)
      then have "fig \<in> set (List.map_filter (fig_at env rows) [0..<length rows])"
        using k by (auto simp: List.map_filter_def intro!: image_eqI [where x = k])
      with all have "image_of env (DPI cfg) fig \<noteq> None" by blast
      then show ?thesis using Some ne k caught_iff_no_fig [of env rows k]
        by (simp add: frame_image_def)
    qed
  qed
  from g l b a show ?thesis by blast
qed

theorem frames_written_in_order_witness:
  "\<not> os_path_exists (files demo_world) ''F:/video/ActionUnit/Actor_01/a.mp4''
   \<and> read_feat (files demo_world) ''F:/smoothed/Actor_01/a.csv'' = Inr [3, -1, 7, -2]
   \<and> generate_au_video_from_csv demo_env configuration
        (''F:/smoothed/Actor_01/a.csv'', ''F:/video/ActionUnit/Actor_01/a.mp4'') demo_world
      = Inr (demo_world
          \<lparr>files := files demo_world
              @ [(''F:/video/ActionUnit/Actor_01/a.mp4'', File (Video [''Frame 0'', ''Frame 2'']))],
           log := [(INFO, ''Successfully loaded file: F:/smoothed/Actor_01/a.csv, now generating overlay for each frame''),
                   (WARNING, ''ValueError encountered at frame 1: negative intensity''),
                   (WARNING, ''ValueError encountered at frame 3: negative intensity''),
                   (WARNING, ''There are 2 frames that raised ValueError: [1, 3]''),
                   (INFO, ''generating video from frames''),
                   (INFO, ''Video saved as F:/video/ActionUnit/Actor_01/a.mp4'')]\<rparr>)
   \<and> write_loop demo_env (DPI configuration) (plotted_figs demo_env [3, -1, 7, -2])
        \<lparr>wpath = ''F:/video/ActionUnit/Actor_01/a.mp4'', wframes = []\<rparr>
      = Inr \<lparr>wpath = ''F:/video/ActionUnit/Actor_01/a.mp4'',
             wframes = List.map_filter (frame_image demo_env (DPI configuration) [3, -1, 7, -2])
                         [0..<length [3, -1, 7, -2 :: int]]\<rparr>
   \<and> List.map_filter (frame_image demo_env (DPI configuration) [3, -1, 7, -2])
         [0..<length [3, -1, 7, -2 :: int]] = [''Frame 0'', ''Frame 2'']"
proof -
  have h1: "\<not> os_path_exists (files demo_world) ''F:/video/ActionUnit/Actor_01/a.mp4''"
    by code_simp
  have h2: "read_feat (files demo_world) ''F:/smoothed/Actor_01/a.csv'' = Inr [3, -1, 7, -2]"
    by code_simp
  have h3: "generate_au_video_from_csv demo_env configuration
        (''F:/smoothed/Actor_01/a.csv'', ''F:/video/ActionUnit/Actor_01/a.mp4'') demo_world
      = Inr (demo_world
          \<lparr>files := files demo_world
              @ [(''F:/video/ActionUnit/Actor_01/a.mp4'', File (Video [''Frame 0'', ''Frame 2'']))],
           log := [(INFO, ''Successfully loaded file: F:/smoothed/Actor_01/a.csv, now generating overlay for each frame''),
                   (WARNING, ''ValueError encountered at frame 1: negative intensity''),
                   (WARNING, ''ValueError encountered at frame 3: negative intensity''),
                   (WARNING, ''There are 2 frames that raised ValueError: [1, 3]''),
                   (INFO, ''generating video from frames''),
                   (INFO, ''Video saved as F:/video/ActionUnit/Actor_01/a.mp4'')]\<rparr>)"
    by code_simp
  have h4: "List.map_filter (frame_image demo_env (DPI configuration) [3, -1, 7, -2])
         [0..<length [3, -1, 7, -2 :: int]] = [''Frame 0'', ''Frame 2'']"
    by code_simp
  from frames_written_in_order [OF h1 h2 h3] h1 h2 h3 h4 show ?thesis by blast
qed

text \<open>
  C5, as amended. \<open>generate_au_video_from_csv\<close> raises if and only if the output is
  missing and either loading the table raises, or plotting some frame raises an exception
  other than \<open>ValueError\<close>, or the writer stage raises (opening the writer,
  rasterizing a figure, appending an image, closing). Value errors of the plotting are
  the only failures it tolerates.
\<close>

theorem task_raises_iff:
  "isl (generate_au_video_from_csv env cfg (smoothed_csv_path, au_video_path) w) =
     (\<not> os_path_exists (files w) au_video_path
      \<and> (case read_feat (files w) smoothed_csv_path of
            Inl _ \<Rightarrow> True
          | Inr rows \<Rightarrow>
              render_raises env rows
              \<or> writer_stage_raises env (DPI cfg) au_video_path (plotted_figs env rows)))"
proof (cases "os_path_exists (files w) au_video_path")
  case True
  then show ?thesis by (simp add: video_skip)
next
  case nex: False
  show ?thesis
  proof (cases "read_feat (files w) smoothed_csv_path")
    case (Inl e)
    then show ?thesis using nex by (simp add: generate_au_video_from_csv_def)
  next
    case (Inr rows)
    show ?thesis
    proof (cases "\<forall>k<length rows. \<not> escapes_at env rows k")
      case False
      then have ex: "\<exists>k<length rows. escapes_at env rows k" by simp
      then have "render_raises env rows" by (auto simp: render_raises_def list_ex_iff)
      with video_escape [OF nex Inr ex, of cfg] nex Inr show ?thesis by auto
    next
      case True
      then have "\<not> render_raises env rows" by (auto simp: render_raises_def list_ex_iff)
      then show ?thesis unfolding video_run [OF nex Inr True] using nex Inr
        by (auto simp: writer_stage_raises_def get_writer_def plotted_figs_def
            split: option.splits sum.splits)
    qed
  qed
qed

theorem task_raises_iff_witness:
  "isl (generate_au_video_from_csv demo_env configuration
         (''F:/smoothed/Actor_01/missing.csv'', ''F:/video/ActionUnit/Actor_01/missing.mp4'') demo_world)
   \<and> isl (read_feat (files demo_world) ''F:/smoothed/Actor_01/missing.csv'')"
proof -
  have "isl (read_feat (files demo_world) ''F:/smoothed/Actor_01/missing.csv'')" by code_simp
  moreover have "\<not> os_path_exists (files demo_world) ''F:/video/ActionUnit/Actor_01/missing.mp4''"
    by code_simp
  ultimately show ?thesis
    using task_raises_iff [of demo_env configuration "''F:/smoothed/Actor_01/missing.csv''"
        "''F:/video/ActionUnit/Actor_01/missing.mp4''" demo_world]
    by (auto split: sum.splits)
qed

text \<open>
  The claim as stated (the task raises if and only if the load or the writer stage raises)
  fails on the table \<open>[5, 200, 7]\<close>: the table loads, the writer would not fail on the
  figures of frames 0 and 2, and the \<open>TypeError\<close> of frame 1 leaves the task.
\<close>

theorem raises_without_load_or_writer_failure:
  "generate_au_video_from_csv demo_env configuration
     (''F:/smoothed/Actor_01/b.csv'', ''F:/video/ActionUnit/Actor_01/b.mp4'') demo_world
     = Inl (OtherException ''TypeError'')
   \<and> read_feat (files demo_world) ''F:/smoothed/Actor_01/b.csv'' = Inr [5, 200, 7]
   \<and> plotted_figs demo_env [5, 200, 7] = [''Frame 0'', ''Frame 2'']
   \<and> \<not> writer_stage_raises demo_env (DPI configuration) ''F:/video/ActionUnit/Actor_01/b.mp4''
         [''Frame 0'', ''Frame 2'']
   \<and> \<not> (isl (generate_au_video_from_csv demo_env configuration
              (''F:/smoothed/Actor_01/b.csv'', ''F:/video/ActionUnit/Actor_01/b.mp4'') demo_world)
          = (isl (read_feat (files demo_world) ''F:/smoothed/Actor_01/b.csv'')
             \<or> writer_stage_raises demo_env (DPI configuration)
                  ''F:/video/ActionUnit/Actor_01/b.mp4'' [''Frame 0'', ''Frame 2'']))"
  by code_simp

section \<open>Properties of paths and of the file system\<close>

lemma digit_char_in: "digit_char d \<in> set ''0123456789''"
proof -
  have "d mod 10 < length ''0123456789''" by simp
  then show ?thesis unfolding digit_char_def by (rule nth_mem)
qed

lemma digit_char_not_sep: "digit_char d \<noteq> CHR ''/''"
  using digit_char_in [of d] by auto

lemma str_nat_no_sep: "CHR ''/'' \<notin> set (str_nat n)"
proof (induction n rule: str_nat.induct)
  case (1 n)
  show ?case
  proof (cases "n < 10")
    case True
    have "str_nat n = [digit_char n]" using True by (subst str_nat.simps) simp
    then show ?thesis using digit_char_not_sep [of n] by simp
  next
    case False
    have "str_nat n = str_nat (n div 10) @ [digit_char (n mod 10)]"
      using False by (subst str_nat.simps) simp
    then show ?thesis using 1 [OF False] digit_char_not_sep [of "n mod 10"] by simp
  qed
qed

lemma str_nat_nonempty: "str_nat n \<noteq> []"
  by (subst str_nat.simps) simp

lemma fmt02_no_sep: "CHR ''/'' \<notin> set (fmt02 i)"
  using str_nat_no_sep [of "nat i"] str_nat_no_sep [of "nat (- i)"]
  by (simp add: fmt02_def)

lemma actor_folder_no_sep: "CHR ''/'' \<notin> set (actor_folder i)"
  using fmt02_no_sep [of i] by (simp add: actor_folder_def)

lemma actor_folder_nonempty: "actor_folder i \<noteq> []"
  by (simp add: actor_folder_def)

lemma actor_folder_not_dot: "actor_folder i \<noteq> ''.''"
  by (simp add: actor_folder_def)

lemma basename_after_sep:
  assumes "CHR ''/'' \<notin> set b"
  shows "os_path_basename (a @ CHR ''/'' # b) = b"
proof -
  have tw: "takeWhile (\<lambda>c. c \<noteq> CHR ''/'') (rev b @ CHR ''/'' # rev a) = rev b"
    using assms by (subst takeWhile_append2) auto
  have "rev (a @ CHR ''/'' # b) = rev b @ CHR ''/'' # rev a" by simp
  then show ?thesis unfolding os_path_basename_def using tw by (simp only: rev_rev_ident)
qed

lemma basename_plain:
  assumes "CHR ''/'' \<notin> set b"
  shows "os_path_basename b = b"
proof -
  have tw: "takeWhile (\<lambda>c. c \<noteq> CHR ''/'') (rev b) = rev b"
    using assms by (auto simp: takeWhile_eq_all_conv)
  show ?thesis unfolding os_path_basename_def tw by simp
qed

lemma join_shape:
  assumes "CHR ''/'' \<notin> set b"
  shows "os_path_join a b = os_path_join a [] @ b"
proof -
  have hdb: "(b \<noteq> [] \<and> hd b = CHR ''/'') = False" using assms by (cases b) auto
  show ?thesis unfolding os_path_join_def hdb by simp
qed

lemma join_empty_shape:
  "os_path_join a [] = [] \<or> (\<exists>a'. os_path_join a [] = a' @ [CHR ''/''])"
proof (cases "a = []")
  case True
  then show ?thesis by (simp add: os_path_join_def)
next
  case False
  show ?thesis
  proof (cases "last a = CHR ''/''")
    case True
    have "a = butlast a @ [last a]" using False by simp
    then have "a = butlast a @ [CHR ''/'']" using True by simp
    then have "os_path_join a [] = butlast a @ [CHR ''/'']"
      using True False by (simp add: os_path_join_def)
    then show ?thesis by blast
  next
    case nl: False
    then have "os_path_join a [] = a @ [CHR ''/'']" using False by (simp add: os_path_join_def)
    then show ?thesis by blast
  qed
qed

lemma basename_join:
  assumes "CHR ''/'' \<notin> set b"
  shows "os_path_basename (os_path_join a b) = b"
proof -
  from join_empty_shape [of a] show ?thesis
  proof
    assume "os_path_join a [] = []"
    then show ?thesis using join_shape [OF assms, of a] basename_plain [OF assms] by simp
  next
    assume "\<exists>a'. os_path_join a [] = a' @ [CHR ''/'']"
    then obtain a' where "os_path_join a [] = a' @ [CHR ''/'']" by blast
    then have "os_path_join a b = a' @ CHR ''/'' # b" using join_shape [OF assms, of a] by simp
    then show ?thesis using basename_after_sep [OF assms] by simp
  qed
qed

lemma makedirs_split_le: "length (fst (makedirs_split name)) \<le> length name"
proof -
  obtain h t where s: "os_path_split name = (h, t)" by (cases "os_path_split name") auto
  have h: "length h \<le> length name" using os_path_split_le [of name] s by simp
  show ?thesis
  proof (cases "t = []")
    case True
    then have "makedirs_split name = os_path_split h" by (simp add: makedirs_split_def s)
    then show ?thesis using os_path_split_le [of h] h by simp
  next
    case False
    then show ?thesis using h by (simp add: makedirs_split_def s)
  qed
qed

lemma makedirs_split_join:
  assumes "CHR ''/'' \<notin> set b" and "b \<noteq> []"
  shows "snd (makedirs_split (os_path_join a b)) = b"
  using basename_join [OF assms(1), of a] assms(2)
  by (simp add: makedirs_split_def os_path_split_def Let_def)

lemma exists_append: "os_path_exists fs p \<Longrightarrow> os_path_exists (fs @ extra) p"
  by (auto simp: os_path_exists_def map_of_append)


lemma os_mkdir_result: "os_mkdir name fs = Inr fs' \<Longrightarrow> fs' = fs @ [(name, Dir)]"
  by (auto simp: os_mkdir_def split: if_splits)

lemma os_makedirs_result:
  "os_makedirs name fs = Inr fs' \<Longrightarrow>
   (\<exists>extra. fs' = fs @ extra
      \<and> (\<forall>p\<in>fst ` set extra. p = name \<or> length p \<le> length (fst (makedirs_split name))))
   \<and> (snd (makedirs_split name) \<noteq> ''.'' \<longrightarrow> os_path_exists fs' name)"
proof (induction name fs arbitrary: fs' rule: os_makedirs.induct)
  case (1 name fs)
  let ?head = "fst (makedirs_split name)"
  let ?tail = "snd (makedirs_split name)"
  show ?case
  proof (cases "?head \<noteq> [] \<and> ?tail \<noteq> [] \<and> \<not> os_path_exists fs ?head")
    case False
    then have "os_mkdir name fs = Inr fs'" using "1.prems" by (subst (asm) os_makedirs.simps) auto
    then have f: "fs' = fs @ [(name, Dir)]" by (rule os_mkdir_result)
    have "\<forall>p\<in>fst ` set [(name, Dir :: 'a node)]. p = name \<or> length p \<le> length ?head" by simp
    with f have "\<exists>extra. fs' = fs @ extra
          \<and> (\<forall>p\<in>fst ` set extra. p = name \<or> length p \<le> length ?head)" by blast
    moreover have "os_path_exists fs' name" by (simp add: f os_path_exists_def)
    ultimately show ?thesis by simp
  next
    case True
    define r where "r = (case os_makedirs ?head fs of Inl (FileExistsError _) \<Rightarrow> Inr fs | r \<Rightarrow> r)"
    from "1.prems" True obtain fs1 where r: "r = Inr fs1"
      and rest: "(if ?tail = ''.'' then Inr fs1 else os_mkdir name fs1) = Inr fs'"
      unfolding r_def by (subst (asm) os_makedirs.simps) (auto split: sum.splits)
    have "\<exists>extra1. fs1 = fs @ extra1 \<and> (\<forall>p\<in>fst ` set extra1. length p \<le> length ?head)"
    proof (cases "os_makedirs ?head fs")
      case (Inl e)
      then have "fs1 = fs" using r unfolding r_def by (auto split: exn.splits)
      then show ?thesis by simp
    next
      case (Inr fs2)
      then have "fs1 = fs2" using r unfolding r_def by simp
      with Inr have "os_makedirs ?head fs = Inr fs1" by simp
      from "1.IH" [OF True this] obtain extra where
        e: "fs1 = fs @ extra"
        "\<forall>p\<in>fst ` set extra. p = ?head \<or> length p \<le> length (fst (makedirs_split ?head))"
        by blast
      have "length (fst (makedirs_split ?head)) \<le> length ?head"
        using makedirs_split_le [of ?head] .
      then have "\<forall>p\<in>fst ` set extra. length p \<le> length ?head" using e(2) by fastforce
      with e(1) show ?thesis by blast
    qed
    then obtain extra1 where e1: "fs1 = fs @ extra1"
      "\<forall>p\<in>fst ` set extra1. length p \<le> length ?head" by blast
    show ?thesis
    proof (cases "?tail = ''.''")
      case True
      with rest have "fs' = fs1" by simp
      then have "fs' = fs @ extra1" using e1(1) by simp
      moreover have "\<forall>p\<in>fst ` set extra1. p = name \<or> length p \<le> length ?head"
        using e1(2) by blast
      ultimately have "\<exists>extra. fs' = fs @ extra
          \<and> (\<forall>p\<in>fst ` set extra. p = name \<or> length p \<le> length ?head)" by blast
      then show ?thesis using True by simp
    next
      case False
      with rest have "os_mkdir name fs1 = Inr fs'" by simp
      then have f: "fs' = fs1 @ [(name, Dir)]" by (rule os_mkdir_result)
      then have "fs' = fs @ (extra1 @ [(name, Dir)])" using e1(1) by simp
      moreover have "\<forall>p\<in>fst ` set (extra1 @ [(name, Dir)]).
          p = name \<or> length p \<le> length ?head"
        using e1(2) by auto
      ultimately have "\<exists>extra. fs' = fs @ extra
          \<and> (\<forall>p\<in>fst ` set extra. p = name \<or> length p \<le> length ?head)" by blast
      moreover have "os_path_exists fs' name" by (simp add: f os_path_exists_def)
      ultimately show ?thesis by simp
    qed
  qed
qed

section \<open>Properties of the task enumeration\<close>

lemma actor_step_existing:
  assumes "os_path_exists (files w0) (out_folder cfg i)"
    and "actor_step cfg i (tasks0, w0) = Inr (tasks1, w1)"
  shows "w1 = w0"
  using assms
  by (auto simp: actor_step_def Let_def out_folder_def split: sum.splits)

lemma actor_step_result:
  assumes "actor_step cfg i (tasks0, w0) = Inr (tasks1, w1)"
  shows "\<exists>extra. files w1 = files w0 @ extra
           \<and> (\<forall>p\<in>fst ` set extra. p = out_folder cfg i
                  \<or> length p \<le> length (fst (makedirs_split (out_folder cfg i))))"
    and "os_path_exists (files w1) (out_folder cfg i)"
    and "\<exists>names. tasks1 = tasks0 @ map (make_task (in_folder cfg i) (out_folder cfg i)) names"
proof -
  have tl: "snd (makedirs_split (out_folder cfg i)) \<noteq> ''.''"
    using makedirs_split_join [where b = "actor_folder i" and a = "video_path cfg",
        OF actor_folder_no_sep actor_folder_nonempty] actor_folder_not_dot [of i]
    by (simp add: out_folder_def)
  show "\<exists>names. tasks1 = tasks0 @ map (make_task (in_folder cfg i) (out_folder cfg i)) names"
    using assms
    by (auto simp: actor_step_def Let_def out_folder_def in_folder_def split: sum.splits if_splits)
  have both: "(\<exists>extra. files w1 = files w0 @ extra
           \<and> (\<forall>p\<in>fst ` set extra. p = out_folder cfg i
                  \<or> length p \<le> length (fst (makedirs_split (out_folder cfg i)))))
         \<and> os_path_exists (files w1) (out_folder cfg i)"
  proof (cases "os_path_exists (files w0) (out_folder cfg i)")
    case True
    from actor_step_existing [OF True assms] have e: "w1 = w0" .
    have "\<exists>extra. files w1 = files w0 @ extra
           \<and> (\<forall>p\<in>fst ` set extra. p = out_folder cfg i
                  \<or> length p \<le> length (fst (makedirs_split (out_folder cfg i))))"
      by (rule exI [of _ "[]"]) (simp add: e)
    then show ?thesis using True e by simp
  next
    case False
    with assms obtain fs' where mk: "os_makedirs (out_folder cfg i) (files w0) = Inr fs'"
      and f: "files w1 = fs'"
      by (auto simp: actor_step_def Let_def out_folder_def logging_info_def split: sum.splits)
    from os_makedirs_result [OF mk] tl f show ?thesis by simp
  qed
  from both show "\<exists>extra. files w1 = files w0 @ extra
           \<and> (\<forall>p\<in>fst ` set extra. p = out_folder cfg i
                  \<or> length p \<le> length (fst (makedirs_split (out_folder cfg i))))"
    by (rule conjunct1)
  from both show "os_path_exists (files w1) (out_folder cfg i)" by (rule conjunct2)
qed

lemma enumerate_loop_result:
  assumes "enumerate_loop cfg idx (tasks0, w0) = Inr (tasks1, w1)"
  shows "(\<exists>extra. files w1 = files w0 @ extra)
       \<and> (\<forall>i\<in>set idx. \<not> (i = 18 \<and> isSong cfg) \<longrightarrow> os_path_exists (files w1) (out_folder cfg i))
       \<and> (\<exists>new. tasks1 = tasks0 @ new
            \<and> (\<forall>t\<in>set new. \<exists>i\<in>set idx. \<exists>name.
                   snd t = os_path_join (out_folder cfg i) name
                   \<and> os_path_exists (files w1) (out_folder cfg i)))"
  using assms
proof (induction idx arbitrary: tasks0 w0)
  case Nil
  then show ?case by simp
next
  case (Cons i idx)
  show ?case
  proof (cases "i = 18 \<and> isSong cfg")
    case True
    with Cons.prems have "enumerate_loop cfg idx (tasks0, w0) = Inr (tasks1, w1)" by simp
    from Cons.IH [OF this] True show ?thesis by auto
  next
    case False
    with Cons.prems obtain tasks2 w2 where
      st: "actor_step cfg i (tasks0, w0) = Inr (tasks2, w2)"
      and lp: "enumerate_loop cfg idx (tasks2, w2) = Inr (tasks1, w1)"
      by (auto split: sum.splits)
    from actor_step_result [OF st] obtain extra2 names where
      e2: "files w2 = files w0 @ extra2" and x2: "os_path_exists (files w2) (out_folder cfg i)"
      and t2: "tasks2 = tasks0 @ map (make_task (in_folder cfg i) (out_folder cfg i)) names"
      by blast
    from Cons.IH [OF lp] obtain extra1 new1 where
      e1: "files w1 = files w2 @ extra1"
      and x1: "\<forall>j\<in>set idx. \<not> (j = 18 \<and> isSong cfg) \<longrightarrow> os_path_exists (files w1) (out_folder cfg j)"
      and t1: "tasks1 = tasks2 @ new1"
      and n1: "\<forall>t\<in>set new1. \<exists>j\<in>set idx. \<exists>name.
                   snd t = os_path_join (out_folder cfg j) name
                   \<and> os_path_exists (files w1) (out_folder cfg j)"
      by blast
    have xi: "os_path_exists (files w1) (out_folder cfg i)"
      using x2 e1 exists_append by metis
    have a: "\<exists>extra. files w1 = files w0 @ extra" using e1 e2 by simp
    have b: "\<forall>j\<in>set (i # idx). \<not> (j = 18 \<and> isSong cfg)
               \<longrightarrow> os_path_exists (files w1) (out_folder cfg j)"
      using x1 xi by simp
    let ?new = "map (make_task (in_folder cfg i) (out_folder cfg i)) names @ new1"
    have c1: "tasks1 = tasks0 @ ?new" using t1 t2 by simp
    have c2: "\<forall>t\<in>set ?new. \<exists>j\<in>set (i # idx). \<exists>name.
                   snd t = os_path_join (out_folder cfg j) name
                   \<and> os_path_exists (files w1) (out_folder cfg j)"
    proof
      fix t assume "t \<in> set ?new"
      then consider n where "n \<in> set names" "t = make_task (in_folder cfg i) (out_folder cfg i) n"
        | "t \<in> set new1" by auto
      then show "\<exists>j\<in>set (i # idx). \<exists>name.
                   snd t = os_path_join (out_folder cfg j) name
                   \<and> os_path_exists (files w1) (out_folder cfg j)"
      proof cases
        case 1
        then have "snd t = os_path_join (out_folder cfg i)
            (fst (os_path_splitext (os_path_basename (os_path_join (in_folder cfg i) n))) @ ''.mp4'')"
          by (simp add: make_task_def Let_def)
        with xi show ?thesis by auto
      next
        case 2
        with n1 show ?thesis by auto
      qed
    qed
    from a b c1 c2 show ?thesis by blast
  qed
qed

lemma digit_char_cases:
  assumes "k < 10"
  shows "k = 0 \<or> k = 1 \<or> k = 2 \<or> k = 3 \<or> k = 4 \<or> k = 5 \<or> k = 6 \<or> k = 7 \<or> k = 8 \<or> k = (9::nat)"
  using assms by arith

lemma digit_char_1:
  assumes "d < 10" and "digit_char d = CHR ''1''"
  shows "d = 1"
  using digit_char_cases [OF assms(1)] assms(2) by (elim disjE) (simp_all add: digit_char_def)

lemma digit_char_8:
  assumes "d < 10" and "digit_char d = CHR ''8''"
  shows "d = 8"
  using digit_char_cases [OF assms(1)] assms(2) by (elim disjE) (simp_all add: digit_char_def)

lemma str_nat_small: "n < 10 \<Longrightarrow> str_nat n = [digit_char n]"
  by (subst str_nat.simps) simp

lemma str_nat_large: "\<not> n < 10 \<Longrightarrow> str_nat n = str_nat (n div 10) @ [digit_char (n mod 10)]"
  by (subst str_nat.simps) simp

lemma str_nat_length_large:
  assumes "\<not> n < 10"
  shows "2 \<le> length (str_nat n)"
proof -
  have "length (str_nat n) = length (str_nat (n div 10)) + 1"
    by (simp only: str_nat_large [OF assms] length_append) simp
  moreover have "0 < length (str_nat (n div 10))" using str_nat_nonempty [of "n div 10"] by simp
  ultimately show ?thesis by arith
qed

lemma str_nat_18: "str_nat n = ''18'' \<Longrightarrow> n = 18"
proof -
  assume a: "str_nat n = ''18''"
  have big: "\<not> n < 10"
  proof
    assume "n < 10"
    then have "str_nat n = [digit_char n]" by (rule str_nat_small)
    with a show False by simp
  qed
  then have e: "str_nat (n div 10) @ [digit_char (n mod 10)] = ''18''"
    using a by (simp add: str_nat_large)
  then have "str_nat (n div 10) @ [digit_char (n mod 10)] = ''1'' @ [CHR ''8'']" by simp
  then have hi: "str_nat (n div 10) = ''1''" and lo: "digit_char (n mod 10) = CHR ''8''"
    unfolding append1_eq_conv by simp_all
  have "n div 10 < 10"
  proof (rule ccontr)
    assume "\<not> n div 10 < 10"
    from str_nat_length_large [OF this] hi show False by simp
  qed
  then have "digit_char (n div 10) = CHR ''1''" using hi by (simp add: str_nat_small)
  with \<open>n div 10 < 10\<close> have "n div 10 = 1" by (rule digit_char_1)
  moreover have "n mod 10 = 8" using lo by (intro digit_char_8) auto
  ultimately show ?thesis by arith
qed

lemma fmt02_18: "fmt02 i = ''18'' \<Longrightarrow> i = 18"
proof -
  assume a: "fmt02 i = ''18''"
  have nn: "\<not> i < 0" using a by (auto simp: fmt02_def)
  show ?thesis
  proof (cases "nat i < 10")
    case True
    then show ?thesis using a nn by (simp add: fmt02_def str_nat_small)
  next
    case False
    from str_nat_length_large [OF False] have "str_nat (nat i) = ''18''"
      using a nn by (simp add: fmt02_def)
    from str_nat_18 [OF this] nn show ?thesis by simp
  qed
qed

lemma fmt02_val_18: "fmt02 18 = ''18''"
  by code_simp

lemma actor_folder_18: "actor_folder i = actor_folder 18 \<Longrightarrow> i = 18"
  using fmt02_18 [of i] by (simp add: actor_folder_def fmt02_val_18)

lemma out_folder_18: "out_folder cfg i = out_folder cfg 18 \<Longrightarrow> i = 18"
  using join_shape [where b = "actor_folder i" and a = "video_path cfg", OF actor_folder_no_sep]
    join_shape [where b = "actor_folder 18" and a = "video_path cfg", OF actor_folder_no_sep]
    actor_folder_18 [of i]
  by (simp add: out_folder_def)

lemma split_head_length:
  "length (fst (os_path_split p)) \<le> length p - length (os_path_basename p)"
proof -
  have "length (rstrip_sep (take (length p - length (os_path_basename p)) p))
      \<le> length (take (length p - length (os_path_basename p)) p)" by (rule length_rstrip_sep)
  then show ?thesis by (auto simp: os_path_split_def Let_def)
qed

lemma out_folder_head_short:
  "length (fst (makedirs_split (out_folder cfg i))) < length (out_folder cfg j)"
proof -
  let ?pre = "os_path_join (video_path cfg) []"
  have pi: "out_folder cfg i = ?pre @ actor_folder i"
    unfolding out_folder_def by (rule join_shape [OF actor_folder_no_sep])
  have pj: "out_folder cfg j = ?pre @ actor_folder j"
    unfolding out_folder_def by (rule join_shape [OF actor_folder_no_sep])
  have b: "os_path_basename (out_folder cfg i) = actor_folder i"
    unfolding out_folder_def by (rule basename_join [OF actor_folder_no_sep])
  have "makedirs_split (out_folder cfg i) = os_path_split (out_folder cfg i)"
    using b actor_folder_nonempty [of i] by (simp add: makedirs_split_def os_path_split_def Let_def)
  then have "length (fst (makedirs_split (out_folder cfg i)))
      \<le> length (out_folder cfg i) - length (actor_folder i)"
    using split_head_length [of "out_folder cfg i"] b by simp
  also have "\<dots> = length ?pre" by (simp add: pi)
  also have "\<dots> < length (out_folder cfg j)" using actor_folder_nonempty [of j] by (simp add: pj)
  finally show ?thesis .
qed

lemma actor_step_song: "actor_step (cfg\<lparr>isSong := b\<rparr>) i st = actor_step cfg i st"
  by (simp add: actor_step_def)

lemma out_folder_song: "out_folder (cfg\<lparr>isSong := b\<rparr>) i = out_folder cfg i"
  by (simp add: out_folder_def)

lemma enumerate_loop_song:
  "enumerate_loop (cfg\<lparr>isSong := True\<rparr>) idx st
   = enumerate_loop (cfg\<lparr>isSong := False\<rparr>) (removeAll 18 idx) st"
proof (induction idx arbitrary: st)
  case Nil
  show ?case by simp
next
  case (Cons i idx)
  show ?case
  proof (cases "i = 18")
    case True
    then show ?thesis using Cons.IH by simp
  next
    case False
    then show ?thesis using Cons.IH by (simp add: actor_step_song split: sum.splits)
  qed
qed

lemma enumerate_loop_keeps_missing:
  assumes "enumerate_loop cfg idx (tasks0, w0) = Inr (tasks1, w1)"
    and "\<forall>i\<in>set idx. i \<noteq> 18"
    and "\<not> os_path_exists (files w0) (out_folder cfg 18)"
  shows "\<not> os_path_exists (files w1) (out_folder cfg 18)"
  using assms
proof (induction idx arbitrary: tasks0 w0)
  case Nil
  then show ?case by simp
next
  case (Cons i idx)
  from Cons.prems(2) have i18: "i \<noteq> 18" by simp
  with Cons.prems(1) obtain tasks2 w2 where
    st: "actor_step cfg i (tasks0, w0) = Inr (tasks2, w2)"
    and lp: "enumerate_loop cfg idx (tasks2, w2) = Inr (tasks1, w1)"
    by (auto split: sum.splits)
  from actor_step_result(1) [OF st] obtain extra where
    e: "files w2 = files w0 @ extra"
    and k: "\<forall>p\<in>fst ` set extra. p = out_folder cfg i
              \<or> length p \<le> length (fst (makedirs_split (out_folder cfg i)))"
    by blast
  have "out_folder cfg 18 \<notin> fst ` set extra"
  proof
    assume "out_folder cfg 18 \<in> fst ` set extra"
    with k have "out_folder cfg 18 = out_folder cfg i
        \<or> length (out_folder cfg 18) \<le> length (fst (makedirs_split (out_folder cfg i)))"
      by blast
    then show False
      using out_folder_18 [of cfg i] i18 out_folder_head_short [of cfg i 18] by auto
  qed
  then have "map_of extra (out_folder cfg 18) = None" by (simp add: map_of_eq_None_iff)
  then have "\<not> os_path_exists (files w2) (out_folder cfg 18)"
    using Cons.prems(3) by (simp add: e os_path_exists_def)
  from Cons.IH [OF lp _ this] Cons.prems(2) show ?case by simp
qed



text \<open>
  C8. With \<open>isSong\<close> enabled the enumeration is the enumeration without the flag on
  the range with 18 removed: whenever it completes, the output folder of actor 18 exists
  afterwards only if it existed before (none is created), every task comes from an
  iteration of another actor, and every index other than 18 runs the ordinary iteration.
  With \<open>isSong\<close> disabled, index 18 runs the ordinary iteration too, and its output
  folder exists once the enumeration completes.
\<close>

theorem song_mode_skips_actor_18:
  "enumerate_tasks (cfg\<lparr>isSong := True\<rparr>) w
     = enumerate_loop (cfg\<lparr>isSong := False\<rparr>)
         (removeAll 18 (py_range (start_actor_num cfg) (end_actor_num cfg))) ([], w)
   \<and> (\<forall>tasks w'. enumerate_tasks (cfg\<lparr>isSong := True\<rparr>) w = Inr (tasks, w') \<longrightarrow>
          os_path_exists (files w') (out_folder cfg 18) = os_path_exists (files w) (out_folder cfg 18)
          \<and> (\<forall>t\<in>set tasks. \<exists>i\<in>set (py_range (start_actor_num cfg) (end_actor_num cfg)).
                 i \<noteq> 18 \<and> (\<exists>name. snd t = os_path_join (out_folder cfg i) name)))
   \<and> (\<forall>i rest st. i \<noteq> 18 \<longrightarrow>
          enumerate_loop (cfg\<lparr>isSong := True\<rparr>) (i # rest) st
          = (case actor_step cfg i st of
               Inl e \<Rightarrow> Inl e
             | Inr st' \<Rightarrow> enumerate_loop (cfg\<lparr>isSong := True\<rparr>) rest st'))
   \<and> (\<forall>rest st.
          enumerate_loop (cfg\<lparr>isSong := False\<rparr>) (18 # rest) st
          = (case actor_step cfg 18 st of
               Inl e \<Rightarrow> Inl e
             | Inr st' \<Rightarrow> enumerate_loop (cfg\<lparr>isSong := False\<rparr>) rest st'))
   \<and> (\<forall>tasks w'. enumerate_tasks (cfg\<lparr>isSong := False\<rparr>) w = Inr (tasks, w') \<longrightarrow>
          18 \<in> set (py_range (start_actor_num cfg) (end_actor_num cfg)) \<longrightarrow>
          os_path_exists (files w') (out_folder cfg 18))"
proof -
  let ?idx = "py_range (start_actor_num cfg) (end_actor_num cfg)"
  let ?T = "cfg\<lparr>isSong := True\<rparr>" and ?F = "cfg\<lparr>isSong := False\<rparr>"
  have a: "enumerate_tasks ?T w = enumerate_loop ?F (removeAll 18 ?idx) ([], w)"
    by (simp add: enumerate_tasks_def enumerate_loop_song)
  have b: "\<forall>tasks w'. enumerate_tasks ?T w = Inr (tasks, w') \<longrightarrow>
          os_path_exists (files w') (out_folder cfg 18) = os_path_exists (files w) (out_folder cfg 18)
          \<and> (\<forall>t\<in>set tasks. \<exists>i\<in>set ?idx.
                 i \<noteq> 18 \<and> (\<exists>name. snd t = os_path_join (out_folder cfg i) name))"
  proof (intro allI impI)
    fix tasks w' assume "enumerate_tasks ?T w = Inr (tasks, w')"
    then have lp: "enumerate_loop ?F (removeAll 18 ?idx) ([], w) = Inr (tasks, w')"
      using a by simp
    have no18: "\<forall>i\<in>set (removeAll 18 ?idx). i \<noteq> 18" by simp
    from enumerate_loop_result [OF lp] obtain extra new where
      e: "files w' = files w @ extra" and t: "tasks = [] @ new"
      and n: "\<forall>t\<in>set new. \<exists>i\<in>set (removeAll 18 ?idx). \<exists>name.
                snd t = os_path_join (out_folder ?F i) name
                \<and> os_path_exists (files w') (out_folder ?F i)"
      by blast
    have x: "os_path_exists (files w') (out_folder cfg 18) = os_path_exists (files w) (out_folder cfg 18)"
    proof (cases "os_path_exists (files w) (out_folder cfg 18)")
      case True
      then show ?thesis using e exists_append by metis
    next
      case False
      then have "\<not> os_path_exists (files w) (out_folder ?F 18)" by (simp add: out_folder_song)
      from enumerate_loop_keeps_missing [OF lp no18 this] False show ?thesis
        by (simp add: out_folder_song)
    qed
    have y: "\<forall>t\<in>set tasks. \<exists>i\<in>set ?idx.
                 i \<noteq> 18 \<and> (\<exists>name. snd t = os_path_join (out_folder cfg i) name)"
    proof
      fix t assume "t \<in> set tasks"
      then have "t \<in> set new" using t by simp
      with n obtain i name where "i \<in> set (removeAll 18 ?idx)"
        "snd t = os_path_join (out_folder ?F i) name" by blast
      then show "\<exists>i\<in>set ?idx. i \<noteq> 18 \<and> (\<exists>name. snd t = os_path_join (out_folder cfg i) name)"
        by (auto simp: out_folder_song)
    qed
    from x y show "os_path_exists (files w') (out_folder cfg 18) = os_path_exists (files w) (out_folder cfg 18)
          \<and> (\<forall>t\<in>set tasks. \<exists>i\<in>set ?idx.
                 i \<noteq> 18 \<and> (\<exists>name. snd t = os_path_join (out_folder cfg i) name))"
      by simp
  qed
  have c: "\<forall>i rest st. i \<noteq> 18 \<longrightarrow>
          enumerate_loop ?T (i # rest) st
          = (case actor_step cfg i st of Inl e \<Rightarrow> Inl e | Inr st' \<Rightarrow> enumerate_loop ?T rest st')"
    by (simp add: actor_step_song)
  have d: "\<forall>rest st. enumerate_loop ?F (18 # rest) st
          = (case actor_step cfg 18 st of Inl e \<Rightarrow> Inl e | Inr st' \<Rightarrow> enumerate_loop ?F rest st')"
    by (simp add: actor_step_song)
  have f: "\<forall>tasks w'. enumerate_tasks ?F w = Inr (tasks, w') \<longrightarrow> 18 \<in> set ?idx \<longrightarrow>
          os_path_exists (files w') (out_folder cfg 18)"
  proof (intro allI impI)
    fix tasks w' assume r: "enumerate_tasks ?F w = Inr (tasks, w')" and m: "18 \<in> set ?idx"
    from r have lp: "enumerate_loop ?F ?idx ([], w) = Inr (tasks, w')"
      by (simp add: enumerate_tasks_def)
    from enumerate_loop_result [OF lp] m
    have "os_path_exists (files w') (out_folder ?F 18)" by auto
    then show "os_path_exists (files w') (out_folder cfg 18)" by (simp add: out_folder_song)
  qed
  from a b c d f show ?thesis by blast
qed

theorem song_mode_skips_actor_18_witness:
  "enumerate_tasks (song_config\<lparr>isSong := True\<rparr>) song_world = Inr (song_tasks, song_world_enumerated)
   \<and> 18 \<in> set (py_range (start_actor_num song_config) (end_actor_num song_config))
   \<and> out_folder song_config 18 = ''F:/video/ActionUnit/Actor_18''
   \<and> \<not> os_path_exists (files song_world) (out_folder song_config 18)
   \<and> \<not> os_path_exists (files song_world_enumerated) (out_folder song_config 18)"
proof -
  have h: "enumerate_tasks (song_config\<lparr>isSong := True\<rparr>) song_world
             = Inr (song_tasks, song_world_enumerated)"
    by code_simp
  have r: "18 \<in> set (py_range (start_actor_num song_config) (end_actor_num song_config))"
    by code_simp
  have o: "out_folder song_config 18 = ''F:/video/ActionUnit/Actor_18''" by code_simp
  have n: "\<not> os_path_exists (files song_world) (out_folder song_config 18)" by code_simp
  from song_mode_skips_actor_18 [of song_config song_world] h n
  have "\<not> os_path_exists (files song_world_enumerated) (out_folder song_config 18)" by blast
  with h r o n show ?thesis by blast
qed

text \<open>
  C10. The ranges are end-exclusive: with the configured \<open>start_actor_num = 1\<close> and
  \<open>end_actor_num = 25\<close>, \<open>main\<close> runs its loop over the indices 1 to 24 and never over
  25, and the cleanup script's \<open>range(1, 25)\<close> visits the folders \<open>Actor_01\<close> to
  \<open>Actor_24\<close> and no other.
\<close>

theorem actor_range_end_exclusive:
  "py_range (start_actor_num configuration) (end_actor_num configuration)
     = [1, 2, 3, 4, 5, 6, 7, 8, 9, 10, 11, 12, 13, 14, 15, 16, 17, 18, 19, 20, 21, 22, 23, 24]
   \<and> end_actor_num configuration
        \<notin> set (py_range (start_actor_num configuration) (end_actor_num configuration))
   \<and> map actor_folder (py_range 1 25)
       = [''Actor_01'', ''Actor_02'', ''Actor_03'', ''Actor_04'', ''Actor_05'', ''Actor_06'',
          ''Actor_07'', ''Actor_08'', ''Actor_09'', ''Actor_10'', ''Actor_11'', ''Actor_12'',
          ''Actor_13'', ''Actor_14'', ''Actor_15'', ''Actor_16'', ''Actor_17'', ''Actor_18'',
          ''Actor_19'', ''Actor_20'', ''Actor_21'', ''Actor_22'', ''Actor_23'', ''Actor_24'']
   \<and> enumerate_tasks configuration w
       = enumerate_loop configuration
           [1, 2, 3, 4, 5, 6, 7, 8, 9, 10, 11, 12, 13, 14, 15, 16, 17, 18, 19, 20, 21, 22, 23, 24]
           ([], w)
   \<and> remove_video_only_file disk
       = (case actor_loop
                 [1, 2, 3, 4, 5, 6, 7, 8, 9, 10, 11, 12, 13, 14, 15, 16, 17, 18, 19, 20, 21, 22, 23, 24]
                 (disk, [], 0) of
            Inl e \<Rightarrow> Inl e
          | Inr (disk', out, delete_counter) \<Rightarrow>
              Inr (disk', out @ [str_int delete_counter @ '' files has been deleted''], delete_counter))"
proof -
  have r: "py_range 1 25
     = [1, 2, 3, 4, 5, 6, 7, 8, 9, 10, 11, 12, 13, 14, 15, 16, 17, 18, 19, 20, 21, 22, 23, 24]"
    by code_simp
  have c: "start_actor_num configuration = 1" "end_actor_num configuration = 25"
    by (simp_all add: configuration_def)
  have f: "map actor_folder
       [1, 2, 3, 4, 5, 6, 7, 8, 9, 10, 11, 12, 13, 14, 15, 16, 17, 18, 19, 20, 21, 22, 23, 24]
       = [''Actor_01'', ''Actor_02'', ''Actor_03'', ''Actor_04'', ''Actor_05'', ''Actor_06'',
          ''Actor_07'', ''Actor_08'', ''Actor_09'', ''Actor_10'', ''Actor_11'', ''Actor_12'',
          ''Actor_13'', ''Actor_14'', ''Actor_15'', ''Actor_16'', ''Actor_17'', ''Actor_18'',
          ''Actor_19'', ''Actor_20'', ''Actor_21'', ''Actor_22'', ''Actor_23'', ''Actor_24'']"
    by code_simp
  show ?thesis
    unfolding c enumerate_tasks_def remove_video_only_file_def r f by simp
qed

theorem actor_range_end_exclusive_witness:
  "enumerate_tasks configuration demo_world
     = enumerate_loop configuration
         [1, 2, 3, 4, 5, 6, 7, 8, 9, 10, 11, 12, 13, 14, 15, 16, 17, 18, 19, 20, 21, 22, 23, 24]
         ([], demo_world)
   \<and> enumerate_tasks configuration demo_world = Inl (OSError ''No such file or directory'')
   \<and> (25::int) \<notin> set (py_range 1 25)"
proof -
  have "enumerate_tasks configuration demo_world = Inl (OSError ''No such file or directory'')"
    by code_simp
  moreover have "(25::int) \<notin> set (py_range 1 25)" by code_simp
  ultimately show ?thesis
    using actor_range_end_exclusive [of demo_world "[] :: (string \<times> unit node) list"] by blast
qed

section \<open>Properties of the cleanup script\<close>



















lemma map_fst_filter_key:
  "map fst (filter (\<lambda>(p, _). T p) (filter (\<lambda>(q, _). q \<notin> S) disk))
   = filter (\<lambda>p. p \<notin> S) (map fst (filter (\<lambda>(p, _). T p) disk))"
  by (induction disk) auto








end
